theory Spec2Isabelle
  imports Complex_Main
begin

section \<open>Standard parts of pymadcad: range stepper, table lookups, coil springs\<close>

text \<open>
  The module \<^verbatim>\<open>madcad/standard.py\<close> computes with Python floats. The
  embedding uses the real numbers: every rounding of the floating-point
  arithmetic is left out, and where the text below says that two values are equal,
  the floats of the program are equal up to rounding. Divisions that raise
  \<^verbatim>\<open>ZeroDivisionError\<close> in Python are written out as errors.
\<close>

subsection \<open>Errors\<close>

text \<open>
  The only exception the module raises itself is \<^verbatim>\<open>ValueError\<close> (in
  \<^verbatim>\<open>nut\<close>, \<^verbatim>\<open>washer\<close> and \<^verbatim>\<open>screw\<close>). A float division by zero raises
  \<^verbatim>\<open>ZeroDivisionError\<close>, an index outside a sequence raises \<^verbatim>\<open>IndexError\<close>.
\<close>

datatype error = ValueError string | ZeroDivisionError | IndexError

subsection \<open>The range stepper \<^verbatim>\<open>linrange\<close>\<close>

text \<open>
  \<^verbatim>\<open>linrange\<close> is a generator. Its local variables after the five lines that
  normalise the arguments are the state of the generator: the next value \<open>t\<close>, the
  bound \<open>stop\<close> and the increment \<open>step\<close>.
\<close>

record lrstate =
  lr_t :: real
  lr_stop :: real
  lr_step :: real

text \<open>
  The tolerance \<^verbatim>\<open>NUMPREC\<close> comes from \<^verbatim>\<open>madcad.mathutils\<close>; it is a
  parameter of the model. \<^verbatim>\<open>div\<close> is a count of subdivisions, a natural number.
  \<^verbatim>\<open>stop=None\<close> and \<^verbatim>\<open>step=None\<close> are the value \<open>None\<close>.
\<close>

definition linrange_step :: "real \<Rightarrow> real \<Rightarrow> real option \<Rightarrow> nat \<Rightarrow> real" where
  "linrange_step start stop step ndiv =
     (case step of
        None \<Rightarrow> (stop - start) / (real ndiv + 1)
      | Some s \<Rightarrow> if s * (stop - start) < 0 then - s else s)"

definition linrange_init ::
  "real \<Rightarrow> real \<Rightarrow> real option \<Rightarrow> real option \<Rightarrow> nat \<Rightarrow> bool \<Rightarrow> lrstate" where
  "linrange_init NUMPREC start stop step ndiv end =
     (let (start, stop) = (case stop of None \<Rightarrow> (0, start) | Some s \<Rightarrow> (start, s));
          step = linrange_step start stop step ndiv;
          stop = (if \<not> end then stop - step else stop);
          stop = stop + NUMPREC
      in \<lparr>lr_t = start, lr_stop = stop, lr_step = step\<rparr>)"

text \<open>One resumption of the generator: \<open>None\<close> is \<^verbatim>\<open>StopIteration\<close>.\<close>

definition linrange_next :: "lrstate \<Rightarrow> (real \<times> lrstate) option" where
  "linrange_next st =
     (if lr_t st \<le> lr_stop st then Some (lr_t st, st\<lparr>lr_t := lr_t st + lr_step st\<rparr>)
      else None)"

text \<open>The values that the first \<open>n\<close> resumptions yield.\<close>

fun linrange_take :: "nat \<Rightarrow> lrstate \<Rightarrow> real list" where
  "linrange_take 0 st = []"
| "linrange_take (Suc n) st =
     (case linrange_next st of
        None \<Rightarrow> []
      | Some (t, st') \<Rightarrow> t # linrange_take n st')"

text \<open>
  Running the generator to its end, as a \<^verbatim>\<open>for\<close> loop or a list comprehension
  does, with at most \<open>fuel\<close> resumptions: it has stopped when fewer than \<open>fuel\<close>
  values came out. \<open>None\<close> is a generator that has not stopped yet.
\<close>

definition linrange_run :: "nat \<Rightarrow> lrstate \<Rightarrow> real list option" where
  "linrange_run fuel st =
     (let ts = linrange_take fuel st in if length ts < fuel then Some ts else None)"

definition linrange ::
  "nat \<Rightarrow> real \<Rightarrow> real \<Rightarrow> real option \<Rightarrow> real option \<Rightarrow> nat \<Rightarrow> bool \<Rightarrow> real list option" where
  "linrange fuel NUMPREC start stop step ndiv end =
     linrange_run fuel (linrange_init NUMPREC start stop step ndiv end)"

subsection \<open>Standard dimensions: \<^verbatim>\<open>nut\<close> and \<^verbatim>\<open>washer\<close>\<close>

text \<open>The table of hexagon nuts: thread, width across flats, height.\<close>

definition standard_hexnuts :: "(real \<times> real \<times> real) list" where
  "standard_hexnuts = [
      (1.6, 3.2, 1.3),
      (2, 4, 1.6),
      (2.5, 5, 2),
      (3, 5.5, 2.4),
      (3.5, 6, 2.8),
      (4, 7, 3.2),
      (5, 8, 4.7),
      (6, 10, 5.2),
      (8, 13, 6.8),
      (10, 16, 8.4),
      (12, 18, 10.8),
      (14, 21, 12.8),
      (16, 24, 14.8),
      (18, 27, 15.8),
      (20, 30, 18),
      (22, 34, 19.4),
      (24, 36, 21.5),
      (27, 41, 23.8),
      (30, 46, 25.6),
      (33, 50, 38.7),
      (36, 55, 31),
      (39, 60, 33.4),
      (42, 65, 34),
      (45, 70, 36),
      (48, 75, 38),
      (52, 80, 42),
      (56, 85, 45),
      (60, 90, 48),
      (64, 95, 51)]"


text \<open>
  Indexing a Python list with the non-negative index that a search returns raises
  \<^verbatim>\<open>IndexError\<close> past the end.
\<close>

definition getitem :: "'a list \<Rightarrow> nat \<Rightarrow> error + 'a" where
  "getitem xs i = (if i < length xs then Inr (xs ! i) else Inl IndexError)"

text \<open>
  The lookup \<^verbatim>\<open>bisect\<close> comes from \<^verbatim>\<open>madcad.mathutils\<close>; \<^verbatim>\<open>nut\<close> and
  \<^verbatim>\<open>washer\<close> take it as an argument here: it is given the keys of the table
  (\<^verbatim>\<open>key=itemgetter(0)\<close>) and the diameter, and returns an index. \<^verbatim>\<open>nut\<close> ends in
  \<^verbatim>\<open>hexnut(*args)\<close>, which builds the mesh with the geometry kernel; the model returns
  the row \<open>args\<close> handed to it.
\<close>

definition nut :: "(real list \<Rightarrow> real \<Rightarrow> nat) \<Rightarrow> real \<Rightarrow> error + (real \<times> real \<times> real)" where
  "nut bisect d =
     (case getitem standard_hexnuts (bisect (map fst standard_hexnuts) d) of
        Inl err \<Rightarrow> Inl err
      | Inr args \<Rightarrow>
          if fst args \<noteq> d then Inl (ValueError ''no standard nut for the given diameter'')
          else Inr args)"


text \<open>
  Modelled from the spec: the function \<^verbatim>\<open>bisect\<close> of \<^verbatim>\<open>madcad.mathutils\<close> is not in
  the sources at hand. It is the ``sorted-table nearest/exact lookup by nominal
  diameter'' whose result indexes the table: the bisection of the sorted keys, which
  returns the index of the first key that is not below the diameter. That is the row
  of the diameter itself when it is listed (exact; the test calls \<^verbatim>\<open>nut(3)\<close>,
  \<^verbatim>\<open>nut(4)\<close>, \<^verbatim>\<open>nut(5)\<close> and \<^verbatim>\<open>washer(3)\<close> and uses their results), the next row
  above otherwise, and the length of the table when no key is that large.
\<close>

definition bisect :: "real list \<Rightarrow> real \<Rightarrow> nat" where
  "bisect keys x = length (takeWhile (\<lambda>k. k < x) keys)"

subsection \<open>Points and wires\<close>

type_synonym vec3 = "real \<times> real \<times> real"

definition X :: vec3 where "X = (1, 0, 0)"
definition Y :: vec3 where "Y = (0, 1, 0)"
definition Z :: vec3 where "Z = (0, 0, 1)"

fun vadd :: "vec3 \<Rightarrow> vec3 \<Rightarrow> vec3" where
  "vadd (a, b, c) (x, y, z) = (a + x, b + y, c + z)"

fun vsub :: "vec3 \<Rightarrow> vec3 \<Rightarrow> vec3" where
  "vsub (a, b, c) (x, y, z) = (a - x, b - y, c - z)"

fun vscale :: "real \<Rightarrow> vec3 \<Rightarrow> vec3" where
  "vscale k (x, y, z) = (k * x, k * y, k * z)"

fun vz :: "vec3 \<Rightarrow> real" where
  "vz (x, y, z) = z"

text \<open>The distance of a point from the axis of the coil, the \<open>Z\<close> axis.\<close>

fun axis_dist :: "vec3 \<Rightarrow> real" where
  "axis_dist (x, y, z) = sqrt (x\<^sup>2 + y\<^sup>2)"

text \<open>
  Modelled from the spec: the class \<^verbatim>\<open>Wire\<close> of \<^verbatim>\<open>madcad.mesh\<close> and its
  operations are not in the sources at hand. A wire is ``an ordered sequence of 3D points
  (and optionally per-segment group tags)'': here a list of sections, each a tag
  and its points in traversal order. \<^verbatim>\<open>Wire(pts, groups=[g])\<close> is one section,
  \<^verbatim>\<open>+\<close> concatenates, \<^verbatim>\<open>w[0]\<close> and \<^verbatim>\<open>w[-1]\<close> are the first and the last
  point and raise \<^verbatim>\<open>IndexError\<close> on a wire without points.
\<close>

type_synonym wire = "(string option \<times> vec3 list) list"

definition Wire :: "vec3 list \<Rightarrow> string option \<Rightarrow> wire" where
  "Wire pts g = [(g, pts)]"

definition wire_points :: "wire \<Rightarrow> vec3 list" where
  "wire_points w = concat (map snd w)"

definition wire_first :: "wire \<Rightarrow> error + vec3" where
  "wire_first w = (case wire_points w of [] \<Rightarrow> Inl IndexError | p # _ \<Rightarrow> Inr p)"

definition wire_last :: "wire \<Rightarrow> error + vec3" where
  "wire_last w = (case wire_points w of [] \<Rightarrow> Inl IndexError | p # ps \<Rightarrow> Inr (last (p # ps)))"

text \<open>
  Modelled from the spec: the transformations of \<^verbatim>\<open>madcad.mesh\<close> and
  \<^verbatim>\<open>madcad.mathutils\<close> that \<^verbatim>\<open>coilspring_torsion\<close> applies to an arm are not in the
  sources at hand either. ``Flip traversal direction, scale-invert across two axes,
  then rotate by the included angle'': \<^verbatim>\<open>transform\<close> with a vector translates,
  \<^verbatim>\<open>flip\<close> reverses the order of the points,
  \<^verbatim>\<open>scaledir(Z,-1)*scaledir(X,-1)\<close> negates the \<open>x\<close> and \<open>z\<close> coordinates, and
  \<^verbatim>\<open>angleAxis(angle, Z)\<close> rotates around the \<open>Z\<close> axis. ``Adjacent coincident
  endpoints are merged (deduplicated) after concatenation'' is \<^verbatim>\<open>mergeclose\<close>.
\<close>

definition translate :: "vec3 \<Rightarrow> vec3 list \<Rightarrow> vec3 list" where
  "translate v ps = map (vadd v) ps"

definition flip :: "vec3 list \<Rightarrow> vec3 list" where
  "flip ps = rev ps"

fun scale_xz :: "vec3 \<Rightarrow> vec3" where
  "scale_xz (x, y, z) = (- x, y, - z)"

fun rotate_z :: "real \<Rightarrow> vec3 \<Rightarrow> vec3" where
  "rotate_z a (x, y, z) = (x * cos a - y * sin a, x * sin a + y * cos a, z)"

definition mergeclose :: "vec3 list \<Rightarrow> vec3 list" where
  "mergeclose ps = remdups_adj ps"

text \<open>
  \<^verbatim>\<open>if not x: x = default\<close> for an optional number: the default replaces both
  \<^verbatim>\<open>None\<close> and zero.
\<close>

definition or_default :: "real option \<Rightarrow> real \<Rightarrow> real" where
  "or_default x dflt = (case x of None \<Rightarrow> dflt | Some v \<Rightarrow> if v = 0 then dflt else v)"

text \<open>
  The loop variable of \<^verbatim>\<open>for t in ...\<close> keeps its last value after the loop, and
  its old value when the loop body never ran.
\<close>

definition loop_var :: "real \<Rightarrow> real list \<Rightarrow> real" where
  "loop_var t ts = (if ts = [] then t else last ts)"

subsection \<open>Coil springs\<close>

text \<open>
  The three generators are modelled on their \<^verbatim>\<open>solid=False\<close> branch, which
  returns the path; with \<^verbatim>\<open>solid=True\<close> the same path is handed to the tube
  sweep of the geometry kernel. \<^verbatim>\<open>settings.curve_resolution\<close> is a parameter: it
  returns the number of subdivisions, a natural number. Each generator runs its
  \<^verbatim>\<open>linrange\<close> loops to their end, so it takes their \<open>fuel\<close> and returns
  \<open>None\<close> when a loop has not stopped.
\<close>

definition coilspring_compression ::
  "nat \<Rightarrow> real \<Rightarrow> (real \<Rightarrow> real \<Rightarrow> nat) \<Rightarrow> real \<Rightarrow> real option \<Rightarrow> real option \<Rightarrow>
   (error + wire) option" where
  "coilspring_compression fuel NUMPREC curve_resolution length' d thickness =
     (let d = or_default d (length' * 0.2);
          thickness = or_default thickness (d * 0.1);
          r = d / 2 - thickness;
          e = r;
          ndiv = curve_resolution (d * pi) (2 * pi);
          step = 2 * pi / (real ndiv + 1);
          t = 0;
          t0 = t;
          z0 = - 0.5 * length'
      in case linrange fuel NUMPREC t0 (Some (t0 + 4 * pi)) (Some step) 0 True of
           None \<Rightarrow> None
         | Some ts \<Rightarrow>
             let top = map (\<lambda>t. (r * cos t, r * sin t, z0 + (t - t0) / (2 * pi) * thickness)) ts;
                 t = loop_var t ts;
                 t0 = t;
                 z0 = - 0.5 * length' + 2 * thickness
             in if e = 0 then Some (Inl ZeroDivisionError)
                else case linrange fuel NUMPREC t0
                            (Some (t0 + 2 * pi * (length' - 4 * thickness) / e)) (Some step) 0 True of
                  None \<Rightarrow> None
                | Some ts \<Rightarrow>
                    let coil = map (\<lambda>t. (r * cos t, r * sin t, z0 + (t - t0) / (2 * pi) * e)) ts;
                        t = loop_var t ts;
                        t0 = t;
                        z0 = 0.5 * length' - 2 * thickness
                    in case linrange fuel NUMPREC t0 (Some (t0 + 4 * pi)) (Some step) 0 True of
                         None \<Rightarrow> None
                       | Some ts \<Rightarrow>
                           let bot = map (\<lambda>t. (r * cos t, r * sin t,
                                                z0 + (t - t0) / (2 * pi) * thickness)) ts
                           in Some (Inr (Wire top (Some ''coil'') @ Wire coil (Some ''spring'')
                                         @ Wire bot (Some ''coil''))))"

text \<open>
  \<^verbatim>\<open>coilspring_tension\<close> hands five pieces to \<^verbatim>\<open>wire\<close>, which meshes the arcs
  with the geometry kernel: the pieces are the result of the model.
\<close>

datatype piece =
    ArcCentered "vec3 \<times> vec3" vec3 vec3
  | ArcThrough vec3 vec3 vec3
  | Coil wire

definition tension_path :: "real \<Rightarrow> real \<Rightarrow> real \<Rightarrow> wire \<Rightarrow> error + piece list" where
  "tension_path length' r hold coil =
     (case wire_first coil of
        Inl err \<Rightarrow> Inl err
      | Inr c0 \<Rightarrow>
          (case wire_last coil of
             Inl err \<Rightarrow> Inl err
           | Inr c1 \<Rightarrow> Inr [
               ArcCentered (vscale (- 0.5 * length') Z, X) (0, - r, - 0.5 * length') (vscale (- hold) Z),
               ArcThrough (vscale (- hold) Z)
                 (vsub (vscale 0.5 (vadd (vscale (- hold) Z) c0)) (vscale (0.5 * r) Y)) c0,
               Coil coil,
               ArcThrough c1
                 (vsub (vscale 0.5 (vadd (vscale hold Z) c1)) (vscale (0.5 * r) Y)) (vscale hold Z),
               ArcCentered (vscale (0.5 * length') Z, X) (vscale hold Z) (0, - r, 0.5 * length')]))"

definition coilspring_tension ::
  "nat \<Rightarrow> real \<Rightarrow> (real \<Rightarrow> real \<Rightarrow> nat) \<Rightarrow> real \<Rightarrow> real option \<Rightarrow> real option \<Rightarrow>
   (error + piece list) option" where
  "coilspring_tension fuel NUMPREC curve_resolution length' d thickness =
     (let d = or_default d (length' * 0.2);
          thickness = or_default thickness (d * 0.1);
          r = d / 2 - thickness;
          e = r;
          spring_length = length' - 2 * r
      in if thickness = 0 then Some (Inl ZeroDivisionError)
         else
           let ncoil = real_of_int \<lfloor>spring_length / thickness\<rfloor> - 0.5;
               hold = 0.5 * length' - r;
               ndiv = curve_resolution (d * pi) (2 * pi);
               step = 2 * pi / (real ndiv + 1);
               z0 = - 0.5 * ncoil * thickness
           in case linrange fuel NUMPREC 0 (Some (2 * pi * ncoil)) (Some step) 0 True of
                None \<Rightarrow> None
              | Some ts \<Rightarrow>
                  let coil = Wire (map (\<lambda>t. (r * cos t, r * sin t,
                                            z0 + t / (2 * pi) * thickness)) ts) (Some ''spring'')
                  in Some (tension_path length' r hold coil))"

text \<open>
  The arm of a torsion spring before it is moved to the start of the coil: the
  lines from \<^verbatim>\<open>c = thickness * sign(hook)\<close> to the \<^verbatim>\<open>Wire\<close> of four points.
\<close>

definition torsion_arm :: "real \<Rightarrow> real \<Rightarrow> real \<Rightarrow> vec3 list" where
  "torsion_arm arm thickness hook =
     (let c = thickness * sgn hook;
          hook = (if \<bar>c\<bar> > \<bar>hook\<bar> then c else hook)
      in [(arm, 0, hook), (arm, 0, c), (arm - \<bar>c\<bar>, 0, 0), (0, 0, 0)])"

definition coilspring_torsion ::
  "nat \<Rightarrow> real \<Rightarrow> (real \<Rightarrow> real \<Rightarrow> nat) \<Rightarrow> real \<Rightarrow> real \<Rightarrow> real option \<Rightarrow> real option \<Rightarrow>
   real option \<Rightarrow> real option \<Rightarrow> (error + vec3 list) option" where
  "coilspring_torsion fuel NUMPREC curve_resolution arm angle d length' thickness hook =
     (let length' = or_default length' (arm * 0.5);
          d = or_default d arm;
          thickness = or_default thickness (d * 0.1);
          hook = or_default hook (- length');
          r = d / 2 - thickness;
          e = r;
          angle = pi - angle
      in if thickness = 0 then Some (Inl ZeroDivisionError)
         else
           let ncoil = real_of_int \<lceil>length' / thickness\<rceil> + angle / (2 * pi);
               ndiv = curve_resolution (d * pi) (2 * pi);
               step = 2 * pi / (real ndiv + 1);
               z0 = - 0.5 * ncoil * thickness
           in case linrange fuel NUMPREC 0 (Some (2 * pi * ncoil)) (Some step) 0 True of
                None \<Rightarrow> None
              | Some ts \<Rightarrow>
                  let coil = Wire (map (\<lambda>t. (- r * sin t, r * cos t,
                                            z0 + t / (2 * pi) * thickness)) ts) (Some ''spring'')
                  in case wire_first coil of
                       Inl err \<Rightarrow> Some (Inl err)
                     | Inr c0 \<Rightarrow>
                         let top = translate c0 (torsion_arm arm thickness hook);
                             bot = map (rotate_z angle) (map scale_xz (flip top))
                         in Some (Inr (mergeclose (top @ wire_points coil @ bot))))"

text \<open>
  The distances from the axis of the coil of the first and of the last point of the
  path that a call returns; \<open>None\<close> when the call returns no path.
\<close>

definition path_ends_dist :: "(error + vec3 list) option \<Rightarrow> (real \<times> real) option" where
  "path_ends_dist res =
     (case res of
        Some (Inr (p # ps)) \<Rightarrow> Some (axis_dist p, axis_dist (last (p # ps)))
      | _ \<Rightarrow> None)"

section \<open>Properties of the range stepper\<close>

text \<open>
  The \<open>k\<close>-th value of the generator is \<open>start + k * step\<close>, every value passed
  the test \<open>t \<le> stop\<close> of the loop, and the generator stops at the first \<open>k\<close>
  whose value fails it.
\<close>

lemma linrange_take_nth:
  "k < length (linrange_take n st) \<Longrightarrow> linrange_take n st ! k = lr_t st + real k * lr_step st"
proof (induction n arbitrary: st k)
  case 0 then show ?case by simp
next
  case (Suc n)
  show ?case
  proof (cases "lr_t st \<le> lr_stop st")
    case False with Suc.prems show ?thesis by (simp add: linrange_next_def)
  next
    case True
    show ?thesis
    proof (cases k)
      case 0 with True show ?thesis by (simp add: linrange_next_def)
    next
      case (Suc j)
      with True Suc.prems have "j < length (linrange_take n (st\<lparr>lr_t := lr_t st + lr_step st\<rparr>))"
        by (simp add: linrange_next_def)
      from Suc.IH[OF this] True Suc show ?thesis
        by (simp add: linrange_next_def algebra_simps)
    qed
  qed
qed

lemma linrange_take_le_stop:
  "t \<in> set (linrange_take n st) \<Longrightarrow> t \<le> lr_stop st"
proof (induction n arbitrary: st)
  case 0 then show ?case by simp
next
  case (Suc n)
  show ?case
  proof (cases "lr_t st \<le> lr_stop st")
    case False with Suc.prems show ?thesis by (simp add: linrange_next_def)
  next
    case True
    with Suc.prems have "t = lr_t st \<or> t \<in> set (linrange_take n (st\<lparr>lr_t := lr_t st + lr_step st\<rparr>))"
      by (simp add: linrange_next_def)
    then show ?thesis using True Suc.IH[of "st\<lparr>lr_t := lr_t st + lr_step st\<rparr>"] by auto
  qed
qed

lemma linrange_take_length_le: "length (linrange_take n st) \<le> n"
  by (induction n arbitrary: st) (auto simp: linrange_next_def)

lemma linrange_take_length_ge:
  "(\<And>j. j < k \<Longrightarrow> lr_t st + real j * lr_step st \<le> lr_stop st) \<Longrightarrow> k \<le> n \<Longrightarrow> k \<le> length (linrange_take n st)"
proof (induction n arbitrary: st k)
  case 0 then show ?case by simp
next
  case (Suc n)
  show ?case
  proof (cases k)
    case 0 then show ?thesis by simp
  next
    case (Suc j)
    from Suc.prems(1)[of 0] Suc have g: "lr_t st \<le> lr_stop st" by simp
    let ?st = "st\<lparr>lr_t := lr_t st + lr_step st\<rparr>"
    have "j \<le> length (linrange_take n ?st)"
    proof (rule Suc.IH)
      fix i assume "i < j"
      then have "Suc i < k" using Suc by simp
      from Suc.prems(1)[OF this] show "lr_t ?st + real i * lr_step ?st \<le> lr_stop ?st"
        by (simp add: algebra_simps)
    next
      show "j \<le> n" using Suc Suc.prems(2) by simp
    qed
    with g Suc show ?thesis by (simp add: linrange_next_def)
  qed
qed

lemma linrange_take_length_stop:
  "lr_t st + real k * lr_step st > lr_stop st \<Longrightarrow> length (linrange_take n st) \<le> k"
proof (induction n arbitrary: st k)
  case 0 then show ?case by simp
next
  case (Suc n)
  show ?case
  proof (cases "lr_t st \<le> lr_stop st")
    case False then show ?thesis by (simp add: linrange_next_def)
  next
    case True
    with Suc.prems obtain j where k: "k = Suc j" by (cases k) auto
    let ?st = "st\<lparr>lr_t := lr_t st + lr_step st\<rparr>"
    have "length (linrange_take n ?st) \<le> j"
      by (rule Suc.IH) (use Suc.prems k in \<open>simp add: algebra_simps\<close>)
    with True k show ?thesis by (simp add: linrange_next_def)
  qed
qed

text \<open>
  The run of the generator: what it returns when it stops, when it stops, and that
  the list it returns does not depend on the fuel.
\<close>

lemma linrange_run_SomeI:
  assumes le: "\<And>j. j < N \<Longrightarrow> lr_t st + real j * lr_step st \<le> lr_stop st"
      and gt: "lr_t st + real N * lr_step st > lr_stop st"
      and fuel: "N < fuel"
  shows "linrange_run fuel st = Some (map (\<lambda>k. lr_t st + real k * lr_step st) [0..<N])"
proof -
  have "N \<le> length (linrange_take fuel st)"
    using le fuel by (intro linrange_take_length_ge) auto
  moreover have "length (linrange_take fuel st) \<le> N"
    using gt by (rule linrange_take_length_stop)
  ultimately have len: "length (linrange_take fuel st) = N" by simp
  have "linrange_take fuel st = map (\<lambda>k. lr_t st + real k * lr_step st) [0..<N]"
    by (rule nth_equalityI) (simp_all add: len linrange_take_nth)
  with len fuel show ?thesis by (simp add: linrange_run_def)
qed

lemma linrange_run_SomeD:
  assumes "linrange_run fuel st = Some ts"
  shows "ts = map (\<lambda>k. lr_t st + real k * lr_step st) [0..<length ts]"
    and "\<forall>t \<in> set ts. t \<le> lr_stop st"
    and "lr_t st + real (length ts) * lr_step st > lr_stop st"
    and "length ts < fuel"
proof -
  from assms have ts: "ts = linrange_take fuel st" and len: "length ts < fuel"
    by (auto simp: linrange_run_def Let_def split: if_splits)
  show "ts = map (\<lambda>k. lr_t st + real k * lr_step st) [0..<length ts]"
    by (rule nth_equalityI) (simp_all add: ts linrange_take_nth)
  show "\<forall>t \<in> set ts. t \<le> lr_stop st" using linrange_take_le_stop ts by blast
  show "length ts < fuel" by fact
  show "lr_t st + real (length ts) * lr_step st > lr_stop st"
  proof (rule ccontr)
    assume "\<not> ?thesis"
    then have top: "lr_t st + real (length ts) * lr_step st \<le> lr_stop st" by simp
    have "\<And>j. j < Suc (length ts) \<Longrightarrow> lr_t st + real j * lr_step st \<le> lr_stop st"
    proof -
      fix j assume "j < Suc (length ts)"
      then consider "j < length ts" | "j = length ts" by linarith
      then show "lr_t st + real j * lr_step st \<le> lr_stop st"
      proof cases
        case 1
        then have "ts ! j \<in> set ts" by simp
        then have "ts ! j \<le> lr_stop st" using linrange_take_le_stop ts by blast
        then show ?thesis using linrange_take_nth[of j fuel st] 1 ts by simp
      next
        case 2 then show ?thesis using top by simp
      qed
    qed
    then have "Suc (length ts) \<le> length (linrange_take fuel st)"
      using len by (intro linrange_take_length_ge) auto
    then show False using ts by simp
  qed
qed

lemma linrange_run_nth:
  assumes "linrange_run fuel st = Some ts" and "k < length ts"
  shows "ts ! k = lr_t st + real k * lr_step st"
proof -
  from assms(1) have "ts = linrange_take fuel st"
    by (auto simp: linrange_run_def Let_def split: if_splits)
  with assms(2) show ?thesis by (simp add: linrange_take_nth)
qed

lemma linrange_run_diverges:
  assumes "lr_step st \<le> 0" "lr_t st \<le> lr_stop st"
  shows "linrange_run fuel st = None"
proof -
  have "\<And>j. lr_t st + real j * lr_step st \<le> lr_stop st"
  proof -
    fix j :: nat
    have "real j * lr_step st \<le> 0" using assms(1) by (simp add: mult_nonneg_nonpos)
    then show "lr_t st + real j * lr_step st \<le> lr_stop st" using assms(2) by linarith
  qed
  then have "fuel \<le> length (linrange_take fuel st)" by (intro linrange_take_length_ge) auto
  then show ?thesis by (simp add: linrange_run_def)
qed

lemma linrange_run_empty:
  assumes "lr_t st > lr_stop st" "0 < fuel"
  shows "linrange_run fuel st = Some []"
  using linrange_run_SomeI[of 0 st fuel] assms by simp

lemma linrange_run_terminates:
  assumes "lr_step st > 0"
  shows "\<exists>fuel ts. linrange_run fuel st = Some ts"
proof (cases "lr_t st \<le> lr_stop st")
  case False then show ?thesis using linrange_run_empty[of st 1] by auto
next
  case True
  define N where "N = nat (\<lfloor>(lr_stop st - lr_t st) / lr_step st\<rfloor> + 1)"
  have q0: "0 \<le> (lr_stop st - lr_t st) / lr_step st" using True assms by simp
  then have fl0: "0 \<le> \<lfloor>(lr_stop st - lr_t st) / lr_step st\<rfloor>" by simp
  have rN: "real N = of_int \<lfloor>(lr_stop st - lr_t st) / lr_step st\<rfloor> + 1"
    using fl0 by (simp add: N_def)
  have gt: "lr_t st + real N * lr_step st > lr_stop st"
  proof -
    have "(lr_stop st - lr_t st) / lr_step st < real N" unfolding rN by linarith
    then have "lr_stop st - lr_t st < real N * lr_step st"
      using assms by (simp add: pos_divide_less_eq)
    then show ?thesis by linarith
  qed
  have le: "\<And>j. j < N \<Longrightarrow> lr_t st + real j * lr_step st \<le> lr_stop st"
  proof -
    fix j assume "j < N"
    then have "real j \<le> of_int \<lfloor>(lr_stop st - lr_t st) / lr_step st\<rfloor>"
      using rN by linarith
    also have "\<dots> \<le> (lr_stop st - lr_t st) / lr_step st" by simp
    finally have "real j * lr_step st \<le> lr_stop st - lr_t st"
      using assms by (simp add: pos_le_divide_eq)
    then show "lr_t st + real j * lr_step st \<le> lr_stop st" by linarith
  qed
  from linrange_run_SomeI[OF le gt, of "Suc N"] show ?thesis by blast
qed

lemma linrange_run_fuel_unique:
  assumes "linrange_run m st = Some ts" "linrange_run n st = Some ts'"
  shows "ts = ts'"
proof -
  note a = linrange_run_SomeD[OF assms(1)] and b = linrange_run_SomeD[OF assms(2)]
  have "length ts = length ts'"
  proof (rule ccontr)
    assume ne: "length ts \<noteq> length ts'"
    show False
    proof (cases "length ts < length ts'")
      case True
      then have "ts' ! length ts \<in> set ts'" by simp
      with b(2) have "ts' ! length ts \<le> lr_stop st" by blast
      moreover have "ts' ! length ts = lr_t st + real (length ts) * lr_step st"
        using b(1) True by (metis add.left_neutral nth_map_upt minus_nat.diff_0)
      ultimately show False using a(3) by simp
    next
      case False
      with ne have lt: "length ts' < length ts" by simp
      then have "ts ! length ts' \<in> set ts" by simp
      with a(2) have "ts ! length ts' \<le> lr_stop st" by blast
      moreover have "ts ! length ts' = lr_t st + real (length ts') * lr_step st"
        using a(1) lt by (metis add.left_neutral nth_map_upt minus_nat.diff_0)
      ultimately show False using b(3) by simp
    qed
  qed
  with a(1) b(1) show ?thesis by simp
qed

lemma linrange_run_any_fuel:
  assumes "linrange_run fuel st = Some ts" and "length ts < fuel'"
  shows "linrange_run fuel' st = Some ts"
proof -
  note d = linrange_run_SomeD [OF assms(1)]
  have le: "\<And>j. j < length ts \<Longrightarrow> lr_t st + real j * lr_step st \<le> lr_stop st"
  proof -
    fix j assume j: "j < length ts"
    then have "ts ! j \<in> set ts" by simp
    with d(2) have "ts ! j \<le> lr_stop st" by blast
    moreover have "ts ! j = lr_t st + real j * lr_step st"
      using d(1) j by (metis add.left_neutral nth_map_upt minus_nat.diff_0)
    ultimately show "lr_t st + real j * lr_step st \<le> lr_stop st" by simp
  qed
  from linrange_run_SomeI [OF le d(3) assms(2)] d(1) show ?thesis by simp
qed

lemma linrange_any_fuel:
  assumes "linrange fuel NUMPREC start stop step ndiv end = Some ts" and "length ts < fuel'"
  shows "linrange fuel' NUMPREC start stop step ndiv end = Some ts"
  using assms unfolding linrange_def by (rule linrange_run_any_fuel)

text \<open>
  The state of the generator after the lines that normalise the arguments.
\<close>

lemma linrange_init_sel:
  "lr_t (linrange_init NUMPREC start (Some stop) step ndiv end) = start"
  "lr_step (linrange_init NUMPREC start (Some stop) step ndiv end) = linrange_step start stop step ndiv"
  "lr_stop (linrange_init NUMPREC start (Some stop) step ndiv end) =
     (if end then stop else stop - linrange_step start stop step ndiv) + NUMPREC"
  by (simp_all add: linrange_init_def Let_def)

text \<open>
  When the increment is not negative, every value lies between \<open>start\<close> and
  \<open>stop + NUMPREC\<close>; when it is positive the generator stops, and an ascending call
  starts with \<open>start\<close>. A call over a whole number \<open>m\<close> of steps yields \<open>m + 1\<close>
  values when the tolerance is smaller than the step.
\<close>

lemma linrange_ascending_values:
  assumes "0 \<le> linrange_step start stop step ndiv"
    and "t \<in> set (linrange_take n (linrange_init NUMPREC start (Some stop) step ndiv end))"
  shows "start \<le> t \<and> t \<le> stop + NUMPREC"
proof -
  let ?st = "linrange_init NUMPREC start (Some stop) step ndiv end"
  from assms(2) obtain k where k: "k < length (linrange_take n ?st)" "t = linrange_take n ?st ! k"
    by (auto simp: in_set_conv_nth)
  then have "t = start + real k * linrange_step start stop step ndiv"
    by (simp add: linrange_take_nth linrange_init_sel)
  moreover have "0 \<le> real k * linrange_step start stop step ndiv"
    using assms(1) by simp
  moreover have "t \<le> lr_stop ?st" using assms(2) by (rule linrange_take_le_stop)
  ultimately show ?thesis using assms(1) by (simp add: linrange_init_sel split: if_splits)
qed

lemma linrange_ascending_stops:
  assumes "0 < linrange_step start stop step ndiv"
  shows "\<exists>fuel ts. linrange fuel NUMPREC start (Some stop) step ndiv end = Some ts"
  unfolding linrange_def
  by (rule linrange_run_terminates) (simp add: linrange_init_sel assms)

lemma linrange_ascending_nonempty:
  assumes "0 < step" and "start \<le> stop" and "0 \<le> NUMPREC"
  shows "\<exists>fuel ts. linrange fuel NUMPREC start (Some stop) (Some step) 0 True = Some (start # ts)"
proof -
  let ?st = "linrange_init NUMPREC start (Some stop) (Some step) 0 True"
  have "\<not> step * (stop - start) < 0"
    using assms(1,2) by (simp add: not_less)
  then have st: "lr_t ?st = start" "lr_step ?st = step" "lr_stop ?st = stop + NUMPREC"
    by (simp_all add: linrange_init_sel linrange_step_def)
  have "0 < lr_step ?st" unfolding st by fact
  from linrange_run_terminates [OF this] obtain fuel ts where run: "linrange_run fuel ?st = Some ts"
    by blast
  note d = linrange_run_SomeD [OF run]
  have "ts \<noteq> []"
  proof
    assume "ts = []"
    with d(3) show False unfolding st using assms(2,3) by simp
  qed
  then obtain t ts' where ts: "ts = t # ts'" by (cases ts) auto
  have "t = ts ! 0" using ts by simp
  also have "\<dots> = start"
    using linrange_run_nth [OF run, of 0] ts st(1) by simp
  finally show ?thesis using run ts unfolding linrange_def by blast
qed

lemma linrange_turns:
  assumes "0 < step" and "0 \<le> NUMPREC" and "NUMPREC < step" and "Suc m < fuel"
  shows "linrange fuel NUMPREC start (Some (start + real m * step)) (Some step) 0 True
           = Some (map (\<lambda>k. start + real k * step) [0..<Suc m])"
proof -
  let ?st = "linrange_init NUMPREC start (Some (start + real m * step)) (Some step) 0 True"
  have "\<not> step * (start + real m * step - start) < 0"
    using assms(1) by (simp add: not_less)
  then have st: "lr_t ?st = start" "lr_step ?st = step" "lr_stop ?st = start + real m * step + NUMPREC"
    by (simp_all add: linrange_init_sel linrange_step_def)
  have "linrange_run fuel ?st = Some (map (\<lambda>k. lr_t ?st + real k * lr_step ?st) [0..<Suc m])"
  proof (rule linrange_run_SomeI)
    fix j assume "j < Suc m"
    then have "real j * step \<le> real m * step" using assms(1) by simp
    then show "lr_t ?st + real j * lr_step ?st \<le> lr_stop ?st" unfolding st using assms(2) by simp
  next
    show "lr_stop ?st < lr_t ?st + real (Suc m) * lr_step ?st"
      unfolding st using assms(3) by (simp add: algebra_simps)
  next
    show "Suc m < fuel" by fact
  qed
  then show ?thesis unfolding linrange_def st by simp
qed

text \<open>
  A call with a positive step and \<open>stop\<close> below \<open>start\<close>: the step is flipped to a
  negative one. When \<open>stop\<close> is below \<open>start\<close> by more than the tolerance nothing
  is yielded; otherwise the test \<open>t \<le> stop + NUMPREC\<close> holds for ever and the
  generator never stops.
\<close>

lemma linrange_descending_empty:
  assumes "0 < step" and "stop + NUMPREC < start" and "0 \<le> NUMPREC" and "0 < fuel"
  shows "linrange fuel NUMPREC start (Some stop) (Some step) 0 True = Some []"
proof -
  let ?st = "linrange_init NUMPREC start (Some stop) (Some step) 0 True"
  have st: "lr_t ?st = start" "lr_stop ?st = stop + NUMPREC"
    by (simp_all add: linrange_init_sel)
  have "lr_stop ?st < lr_t ?st" unfolding st by fact
  then show ?thesis unfolding linrange_def using assms(4) by (rule linrange_run_empty)
qed

lemma linrange_window_diverges:
  assumes "0 < step" and "stop < start" and "start \<le> stop + NUMPREC"
  shows "linrange fuel NUMPREC start (Some stop) (Some step) 0 True = None"
proof -
  let ?st = "linrange_init NUMPREC start (Some stop) (Some step) 0 True"
  have "step * (stop - start) < 0"
    using assms(1,2) by (simp add: mult_pos_neg)
  then have st: "lr_t ?st = start" "lr_step ?st = - step" "lr_stop ?st = stop + NUMPREC"
    by (simp_all add: linrange_init_sel linrange_step_def)
  have "lr_step ?st \<le> 0" and "lr_t ?st \<le> lr_stop ?st"
    unfolding st using assms by simp_all
  then show ?thesis unfolding linrange_def by (rule linrange_run_diverges)
qed

text \<open>
  \<^verbatim>\<open>linrange(0, 1, 0.3)\<close> yields \<open>0, 0.3, 0.6, 0.9\<close>: the next value \<open>1.2\<close> is
  beyond \<open>1 + NUMPREC\<close>.
\<close>

lemma linrange_step_three_tenths:
  assumes "0 \<le> NUMPREC" and "NUMPREC < 2 / 10" and "4 < fuel"
  shows "linrange fuel NUMPREC 0 (Some 1) (Some 0.3) 0 True = Some [0, 0.3, 0.6, 0.9]"
proof -
  let ?st = "linrange_init NUMPREC 0 (Some 1) (Some 0.3) 0 True"
  have st: "lr_t ?st = 0" "lr_step ?st = 3 / 10" "lr_stop ?st = 1 + NUMPREC"
    by (simp_all add: linrange_init_sel linrange_step_def)
  have "linrange_run fuel ?st = Some (map (\<lambda>k. lr_t ?st + real k * lr_step ?st) [0..<4])"
  proof (rule linrange_run_SomeI)
    fix j :: nat assume "j < 4"
    then have "real j \<le> 3" by simp
    then show "lr_t ?st + real j * lr_step ?st \<le> lr_stop ?st" using assms(1) by (simp add: st)
  next
    show "lr_stop ?st < lr_t ?st + real 4 * lr_step ?st" using assms(2) by (simp add: st)
  next
    show "4 < fuel" by fact
  qed
  then show ?thesis by (simp add: linrange_def st upt_rec)
qed

section \<open>The claims on the range stepper\<close>

text \<open>
  Claim C4. When only \<^verbatim>\<open>div\<close> is given, the increment of the generator is
  \<open>(stop - start) / (div + 1)\<close>, with \<open>start = 0\<close> and \<open>stop\<close> the first argument
  when \<^verbatim>\<open>stop\<close> is left out. \<^verbatim>\<open>linrange(0, 10, div=4)\<close> yields exactly
  \<open>0, 2, 4, 6, 8, 10\<close> with \<^verbatim>\<open>end=True\<close> and \<open>0, 2, 4, 6, 8\<close>, all strictly before
  \<open>10\<close>, with \<^verbatim>\<open>end=False\<close>, for every tolerance \<open>0 \<le> NUMPREC < 2\<close>.
\<close>

theorem linrange_div_step:
  assumes "0 \<le> NUMPREC" and "NUMPREC < 2" and "6 < fuel"
  shows "lr_step (linrange_init NUMPREC start (Some stop) None ndiv end) = (stop - start) / (real ndiv + 1)
       \<and> lr_step (linrange_init NUMPREC start None None ndiv end) = (start - 0) / (real ndiv + 1)
       \<and> linrange fuel NUMPREC 0 (Some 10) None 4 True = Some [0, 2, 4, 6, 8, 10]
       \<and> linrange fuel NUMPREC 0 (Some 10) None 4 False = Some [0, 2, 4, 6, 8]"
proof -
  have a: "lr_step (linrange_init NUMPREC start (Some stop) None ndiv end) = (stop - start) / (real ndiv + 1)"
    by (simp add: linrange_init_def linrange_step_def Let_def)
  have b: "lr_step (linrange_init NUMPREC start None None ndiv end) = (start - 0) / (real ndiv + 1)"
    by (simp add: linrange_init_def linrange_step_def Let_def)
  let ?st = "linrange_init NUMPREC 0 (Some 10) None 4 True"
  have st: "lr_t ?st = 0" "lr_step ?st = 2" "lr_stop ?st = 10 + NUMPREC"
    by (simp_all add: linrange_init_sel linrange_step_def)
  have "linrange_run fuel ?st = Some (map (\<lambda>k. lr_t ?st + real k * lr_step ?st) [0..<6])"
  proof (rule linrange_run_SomeI)
    fix j :: nat assume "j < 6"
    then have "real j \<le> 5" by simp
    then show "lr_t ?st + real j * lr_step ?st \<le> lr_stop ?st" using assms(1) by (simp add: st)
  next
    show "lr_stop ?st < lr_t ?st + real 6 * lr_step ?st" using assms(2) by (simp add: st)
  next
    show "6 < fuel" by fact
  qed
  then have c: "linrange fuel NUMPREC 0 (Some 10) None 4 True = Some [0, 2, 4, 6, 8, 10]"
    by (simp add: linrange_def st upt_rec)
  let ?sf = "linrange_init NUMPREC 0 (Some 10) None 4 False"
  have sf: "lr_t ?sf = 0" "lr_step ?sf = 2" "lr_stop ?sf = 8 + NUMPREC"
    by (simp_all add: linrange_init_sel linrange_step_def)
  have "linrange_run fuel ?sf = Some (map (\<lambda>k. lr_t ?sf + real k * lr_step ?sf) [0..<5])"
  proof (rule linrange_run_SomeI)
    fix j :: nat assume "j < 5"
    then have "real j \<le> 4" by simp
    then show "lr_t ?sf + real j * lr_step ?sf \<le> lr_stop ?sf" using assms(1) by (simp add: sf)
  next
    show "lr_stop ?sf < lr_t ?sf + real 5 * lr_step ?sf" using assms(2) by (simp add: sf)
  next
    show "5 < fuel" using assms(3) by simp
  qed
  then have d: "linrange fuel NUMPREC 0 (Some 10) None 4 False = Some [0, 2, 4, 6, 8]"
    by (simp add: linrange_def sf upt_rec)
  from a b c d show ?thesis by simp
qed

theorem linrange_div_step_witness:
  "(0::real) \<le> 1 / 10 ^ 13 \<and> (1::real) / 10 ^ 13 < 2 \<and> (6::nat) < 7
   \<and> lr_step (linrange_init (1 / 10 ^ 13) 0 (Some 10) None 4 True) = 2
   \<and> linrange 7 (1 / 10 ^ 13) 0 (Some 10) None 4 True = Some [0, 2, 4, 6, 8, 10]
   \<and> linrange 7 (1 / 10 ^ 13) 0 (Some 10) None 4 False = Some [0, 2, 4, 6, 8]"
  using linrange_div_step [of "1 / 10 ^ 13" 7 0 10 4 True] by simp

text \<open>
  Claim C5, at the call \<^verbatim>\<open>linrange(0, -1, step=1, end=False)\<close>. The sign of the
  increment is flipped to \<open>-1\<close>, \<^verbatim>\<open>stop -= step\<close> raises the bound to \<open>0\<close>, and
  the loop \<^verbatim>\<open>while t <= stop\<close> yields \<open>0, -1, -2, -3\<close> and goes on: the
  values leave the interval between \<open>start = 0\<close> and \<open>stop = -1\<close>, whichever way the
  bounds are read.
\<close>

theorem linrange_descending_values_leave_range:
  "linrange_take 4 (linrange_init (1 / 10 ^ 13) 0 (Some (- 1)) (Some 1) 0 False) = [0, - 1, - 2, - 3]"
  by (simp add: linrange_init_def linrange_step_def linrange_next_def Let_def eval_nat_numeral)

text \<open>
  Claim C6, at the same call: its increment is \<open>-1\<close>, not zero, and the generator
  has not stopped after any number of resumptions.
\<close>

theorem linrange_descending_never_stops:
  "lr_step (linrange_init (1 / 10 ^ 13) 0 (Some (- 1)) (Some 1) 0 False) = - 1
   \<and> linrange fuel (1 / 10 ^ 13) 0 (Some (- 1)) (Some 1) 0 False = None"
proof -
  let ?st = "linrange_init (1 / 10 ^ 13) 0 (Some (- 1)) (Some 1) 0 False"
  have st: "lr_t ?st = 0" "lr_step ?st = - 1" "lr_stop ?st = 1 / 10 ^ 13"
    by (simp_all add: linrange_init_sel linrange_step_def)
  have "lr_step ?st \<le> 0" and "lr_t ?st \<le> lr_stop ?st"
    unfolding st by simp_all
  then have "linrange_run fuel ?st = None"
    by (rule linrange_run_diverges)
  then show ?thesis unfolding linrange_def st by simp
qed

text \<open>
  Claim C8. When \<open>step * (stop - start) < 0\<close>, the generator starts in the same
  state as the call with \<open>- step\<close>: the increment is \<open>- step\<close>, the values yielded
  are the same, and so is the run of the generator. The model of \<^verbatim>\<open>linrange\<close> has
  no error among its results.
\<close>

theorem linrange_sign_flip:
  assumes "step * (stop - start) < 0"
  shows "linrange_init NUMPREC start (Some stop) (Some step) ndiv end
           = linrange_init NUMPREC start (Some stop) (Some (- step)) ndiv end
       \<and> lr_step (linrange_init NUMPREC start (Some stop) (Some step) ndiv end) = - step
       \<and> linrange_take n (linrange_init NUMPREC start (Some stop) (Some step) ndiv end)
           = linrange_take n (linrange_init NUMPREC start (Some stop) (Some (- step)) ndiv end)
       \<and> linrange fuel NUMPREC start (Some stop) (Some step) ndiv end
           = linrange fuel NUMPREC start (Some stop) (Some (- step)) ndiv end"
proof -
  from assms have "\<not> (- step) * (stop - start) < 0" by (simp add: not_less)
  with assms have "linrange_step start stop (Some step) ndiv = - step"
    "linrange_step start stop (Some (- step)) ndiv = - step"
    by (simp_all add: linrange_step_def)
  then show ?thesis by (simp add: linrange_init_def linrange_def Let_def)
qed

theorem linrange_sign_flip_witness:
  "(2::real) * (0 - 10) < 0
   \<and> lr_step (linrange_init (1 / 10 ^ 13) 10 (Some 0) (Some 2) 0 True) = - 2
   \<and> linrange 3 (1 / 10 ^ 13) 10 (Some 0) (Some 2) 0 True
        = linrange 3 (1 / 10 ^ 13) 10 (Some 0) (Some (- 2)) 0 True"
proof -
  have h: "(2::real) * (0 - 10) < 0" by simp
  from h linrange_sign_flip [OF h, of "1 / 10 ^ 13" 0 True 3 3] show ?thesis by blast
qed

section \<open>The compression spring\<close>

text \<open>
  Sine and cosine at the even multiples of \<open>pi\<close> that the examples meet, and the
  first and last point of a wire that has points.
\<close>

lemma cos_even_pi: "cos (numeral (Num.Bit0 n) * pi) = 1"
proof -
  have "numeral (Num.Bit0 n) * pi = 2 * real (numeral n) * pi"
    by (subst numeral_Bit0_eq_double) simp
  then show ?thesis by (simp only: cos_2npi)
qed

lemma sin_even_pi: "sin (numeral (Num.Bit0 n) * pi) = 0"
proof -
  have "numeral (Num.Bit0 n) * pi = 2 * real (numeral n) * pi"
    by (subst numeral_Bit0_eq_double) simp
  then show ?thesis by (simp only: sin_2npi)
qed

lemma wire_first_hd: "wire_points w \<noteq> [] \<Longrightarrow> wire_first w = Inr (hd (wire_points w))"
  by (cases "wire_points w") (simp_all add: wire_first_def)

lemma wire_last_last: "wire_points w \<noteq> [] \<Longrightarrow> wire_last w = Inr (last (wire_points w))"
  by (cases "wire_points w") (simp_all add: wire_last_def)

text \<open>
  The result of \<^verbatim>\<open>coilspring_compression\<close> in terms of the values of its three
  loops.
\<close>

lemma compression_result:
  assumes "d \<noteq> 0" and "thickness \<noteq> 0" and "d / 2 - thickness \<noteq> 0"
    and step: "step = 2 * pi / (real (curve_resolution (d * pi) (2 * pi)) + 1)"
    and top: "linrange fuel NUMPREC 0 (Some (4 * pi)) (Some step) 0 True = Some ts1"
    and coil: "linrange fuel NUMPREC (loop_var 0 ts1)
                 (Some (loop_var 0 ts1 + 2 * pi * (length' - 4 * thickness) / (d / 2 - thickness)))
                 (Some step) 0 True = Some ts2"
    and bot: "linrange fuel NUMPREC (loop_var (loop_var 0 ts1) ts2)
                 (Some (loop_var (loop_var 0 ts1) ts2 + 4 * pi)) (Some step) 0 True = Some ts3"
  shows "coilspring_compression fuel NUMPREC curve_resolution length' (Some d) (Some thickness)
     = Some (Inr
        [(Some ''coil'', map (\<lambda>t. ((d / 2 - thickness) * cos t, (d / 2 - thickness) * sin t,
                                  - 0.5 * length' + (t - 0) / (2 * pi) * thickness)) ts1),
         (Some ''spring'', map (\<lambda>t. ((d / 2 - thickness) * cos t, (d / 2 - thickness) * sin t,
                                  - 0.5 * length' + 2 * thickness
                                  + (t - loop_var 0 ts1) / (2 * pi) * (d / 2 - thickness))) ts2),
         (Some ''coil'', map (\<lambda>t. ((d / 2 - thickness) * cos t, (d / 2 - thickness) * sin t,
                                  0.5 * length' - 2 * thickness
                                  + (t - loop_var (loop_var 0 ts1) ts2) / (2 * pi) * thickness)) ts3)])"
  using assms(1-3) top coil bot
  by (simp add: coilspring_compression_def or_default_def Let_def Wire_def step [symmetric])

text \<open>
  For \<open>d / 2 > thickness > 0\<close> and a tolerance below the step, the path starts at
  \<open>z = - length / 2\<close> and ends at \<open>z = length / 2\<close>, provided \<open>length\<close> is not in the
  window just below \<open>4 * thickness\<close>.
\<close>

lemma compression_ends:
  assumes tol: "0 \<le> NUMPREC" "NUMPREC < 2 * pi / (real (curve_resolution (d * pi) (2 * pi)) + 1)"
    and valid: "0 < thickness" "thickness < d / 2"
    and len: "4 * thickness \<le> length'
              \<or> NUMPREC < 2 * pi * (4 * thickness - length') / (d / 2 - thickness)"
  shows "\<exists>fuel w p q.
           coilspring_compression fuel NUMPREC curve_resolution length' (Some d) (Some thickness)
             = Some (Inr w)
           \<and> wire_first w = Inr p \<and> vz p = - length' / 2
           \<and> wire_last w = Inr q \<and> vz q = length' / 2"
proof -
  define r where "r = d / 2 - thickness"
  define n where "n = curve_resolution (d * pi) (2 * pi)"
  define step where "step = 2 * pi / (real n + 1)"
  define m where "m = 2 * (n + 1)"
  define X where "X = 2 * pi * (length' - 4 * thickness) / r"
  have r: "0 < r" using valid by (simp add: r_def)
  have d: "d \<noteq> 0" and th: "thickness \<noteq> 0" using valid by auto
  have step: "0 < step" by (simp add: step_def)
  have tol': "NUMPREC < step" using tol(2) by (simp add: step_def n_def)
  have turns: "real m * step = 4 * pi" by (simp add: m_def step_def field_simps)
  have "\<exists>ts2. \<exists>f2. \<forall>fuel > f2.
          linrange fuel NUMPREC (4 * pi) (Some (4 * pi + X)) (Some step) 0 True = Some ts2"
  proof (cases "0 \<le> X")
    case True
    have "\<exists>fuel ts. linrange fuel NUMPREC (4 * pi) (Some (4 * pi + X)) (Some step) 0 True
            = Some (4 * pi # ts)"
      by (rule linrange_ascending_nonempty) (use step True tol(1) in simp_all)
    then obtain f ts where
      "linrange f NUMPREC (4 * pi) (Some (4 * pi + X)) (Some step) 0 True = Some (4 * pi # ts)"
      by blast
    then have "\<forall>fuel > length (4 * pi # ts).
        linrange fuel NUMPREC (4 * pi) (Some (4 * pi + X)) (Some step) 0 True = Some (4 * pi # ts)"
      using linrange_any_fuel by blast
    then show ?thesis by blast
  next
    case False
    then have neg: "length' - 4 * thickness < 0"
      using r by (simp add: X_def not_le divide_less_0_iff mult_less_0_iff)
    with len have "NUMPREC < 2 * pi * (4 * thickness - length') / r" by (simp add: r_def)
    also have "\<dots> = - X" by (simp add: X_def algebra_simps diff_divide_distrib)
    finally have "4 * pi + X + NUMPREC < 4 * pi" by simp
    then have "\<forall>fuel > 0.
        linrange fuel NUMPREC (4 * pi) (Some (4 * pi + X)) (Some step) 0 True = Some []"
      using linrange_descending_empty step tol(1) by blast
    then show ?thesis by blast
  qed
  then obtain ts2 f2 where coil: "\<And>fuel. f2 < fuel \<Longrightarrow>
      linrange fuel NUMPREC (4 * pi) (Some (4 * pi + X)) (Some step) 0 True = Some ts2"
    by blast
  define fuel where "fuel = Suc (Suc m) + f2"
  define ts1 where "ts1 = map (\<lambda>k. 0 + real k * step) [0..<Suc m]"
  define t2 where "t2 = loop_var (4 * pi) ts2"
  define ts3 where "ts3 = map (\<lambda>k. t2 + real k * step) [0..<Suc m]"
  have top: "linrange fuel NUMPREC 0 (Some (4 * pi)) (Some step) 0 True = Some ts1"
    using linrange_turns [of step NUMPREC m fuel 0] step tol(1) tol' turns
    by (simp add: fuel_def ts1_def)
  have t1: "loop_var 0 ts1 = 4 * pi"
    using turns by (simp add: loop_var_def ts1_def)
  have bot: "linrange fuel NUMPREC t2 (Some (t2 + 4 * pi)) (Some step) 0 True = Some ts3"
    using linrange_turns [of step NUMPREC m fuel t2] step tol(1) tol' turns
    by (simp add: fuel_def ts3_def)
  have last3: "last ts3 = t2 + 4 * pi" and ne3: "ts3 \<noteq> []"
    using turns by (simp_all add: ts3_def)
  have ne1: "ts1 \<noteq> []" and hd1: "hd ts1 = 0"
    by (simp_all add: ts1_def upt_rec)
  have res: "coilspring_compression fuel NUMPREC curve_resolution length' (Some d) (Some thickness)
     = Some (Inr
        [(Some ''coil'', map (\<lambda>t. ((d / 2 - thickness) * cos t, (d / 2 - thickness) * sin t,
                                  - 0.5 * length' + (t - 0) / (2 * pi) * thickness)) ts1),
         (Some ''spring'', map (\<lambda>t. ((d / 2 - thickness) * cos t, (d / 2 - thickness) * sin t,
                                  - 0.5 * length' + 2 * thickness
                                  + (t - loop_var 0 ts1) / (2 * pi) * (d / 2 - thickness))) ts2),
         (Some ''coil'', map (\<lambda>t. ((d / 2 - thickness) * cos t, (d / 2 - thickness) * sin t,
                                  0.5 * length' - 2 * thickness
                                  + (t - loop_var (loop_var 0 ts1) ts2) / (2 * pi) * thickness)) ts3)])"
    (is "_ = Some (Inr ?w)")
  proof (rule compression_result [where step = step])
    show "d \<noteq> 0" "thickness \<noteq> 0" by fact+
    show "d / 2 - thickness \<noteq> 0" using r by (simp add: r_def)
    show "step = 2 * pi / (real (curve_resolution (d * pi) (2 * pi)) + 1)"
      by (simp add: step_def n_def)
    show "linrange fuel NUMPREC 0 (Some (4 * pi)) (Some step) 0 True = Some ts1" by fact
    show "linrange fuel NUMPREC (loop_var 0 ts1)
                 (Some (loop_var 0 ts1 + 2 * pi * (length' - 4 * thickness) / (d / 2 - thickness)))
                 (Some step) 0 True = Some ts2"
      unfolding t1 using coil [of fuel] by (simp add: fuel_def X_def r_def)
    show "linrange fuel NUMPREC (loop_var (loop_var 0 ts1) ts2)
                 (Some (loop_var (loop_var 0 ts1) ts2 + 4 * pi)) (Some step) 0 True = Some ts3"
      unfolding t1 t2_def [symmetric] by fact
  qed
  obtain a ts1' where ts1: "ts1 = a # ts1'" using ne1 by (cases ts1) auto
  with hd1 have a: "a = 0" by simp
  have first: "wire_first ?w = Inr (r * cos 0, r * sin 0, - 0.5 * length' + (0 - 0) / (2 * pi) * thickness)"
    by (simp add: wire_first_def wire_points_def ts1 a r_def)
  have pts: "wire_points ?w \<noteq> []" by (simp add: wire_points_def ne1)
  have "last (wire_points ?w)
      = (r * cos (last ts3), r * sin (last ts3),
         0.5 * length' - 2 * thickness + (last ts3 - t2) / (2 * pi) * thickness)"
    using ne3 by (simp add: wire_points_def last_map t1 t2_def r_def)
  then have lastw: "wire_last ?w
      = Inr (r * cos (last ts3), r * sin (last ts3),
         0.5 * length' - 2 * thickness + (last ts3 - t2) / (2 * pi) * thickness)"
    using wire_last_last [OF pts] by simp
  have "vz (r * cos (last ts3), r * sin (last ts3),
         0.5 * length' - 2 * thickness + (last ts3 - t2) / (2 * pi) * thickness) = length' / 2"
    by (simp add: last3)
  moreover have "vz (r * cos 0, r * sin 0, - 0.5 * length' + (0 - 0) / (2 * pi) * thickness) = - length' / 2"
    by simp
  ultimately show ?thesis using res first lastw by blast
qed

text \<open>
  In that window the second loop of \<^verbatim>\<open>coilspring_compression\<close> is a call of
  \<^verbatim>\<open>linrange\<close> that never stops.
\<close>

lemma compression_diverges:
  assumes "d \<noteq> 0" and "thickness \<noteq> 0" and "0 < d / 2 - thickness"
    and "length' < 4 * thickness"
    and "2 * pi * (4 * thickness - length') / (d / 2 - thickness) \<le> NUMPREC"
  shows "coilspring_compression fuel NUMPREC curve_resolution length' (Some d) (Some thickness) = None"
proof -
  define r where "r = d / 2 - thickness"
  define step where "step = 2 * pi / (real (curve_resolution (d * pi) (2 * pi)) + 1)"
  have step: "0 < step" by (simp add: step_def)
  have r: "0 < r" using assms(3) by (simp add: r_def)
  have neg: "2 * pi * (length' - 4 * thickness) / r < 0"
    using assms(4) r by (simp add: divide_neg_pos mult_pos_neg)
  have win: "- (2 * pi * (length' - 4 * thickness) / r) \<le> NUMPREC"
  proof -
    have "- (2 * pi * (length' - 4 * thickness) / r) = 2 * pi * (4 * thickness - length') / r"
      by (simp add: algebra_simps diff_divide_distrib)
    then show ?thesis using assms(5) by (simp add: r_def)
  qed
  have div: "linrange fuel NUMPREC t0 (Some (t0 + 2 * pi * (length' - 4 * thickness) / r)) (Some step) 0 True = None"
    for t0
    by (rule linrange_window_diverges) (use step neg win in simp_all)
  show ?thesis
    using assms(1,2) r div
    by (simp add: coilspring_compression_def or_default_def Let_def r_def [symmetric] step_def [symmetric]
             split: option.splits)
qed

text \<open>
  Claim C1, at the call
  \<^verbatim>\<open>coilspring_compression(0.4 - 1e-15, 1, 0.1, solid=False)\<close> with the tolerance
  \<open>NUMPREC = 1e-13\<close>, for every curve resolution: the input has
  \<open>d / 2 > thickness > 0\<close>, and the call returns no path, because its second loop has
  not stopped after any number of steps.
\<close>

theorem compression_hangs_below_four_thickness:
  "coilspring_compression fuel (1 / 10 ^ 13) curve_resolution (4 / 10 - 1 / 10 ^ 15) (Some 1) (Some (1 / 10))
     = None"
proof (rule compression_diverges)
  have "pi \<le> 20" using pi_less_4 by simp
  then show "2 * pi * (4 * (1 / 10) - (4 / 10 - 1 / 10 ^ 15)) / (1 / 2 - 1 / 10) \<le> (1::real) / 10 ^ 13"
    by simp
qed simp_all

section \<open>No check of the thickness\<close>

text \<open>
  The generators have no \<^verbatim>\<open>raise\<close>. What their own code can raise is the
  \<^verbatim>\<open>ZeroDivisionError\<close> of a division and the \<^verbatim>\<open>IndexError\<close> of \<^verbatim>\<open>coil[0]\<close>
  on a coil without points.
\<close>

lemma wire_first_error: "wire_first w = Inl err \<Longrightarrow> err = IndexError"
  by (simp add: wire_first_def split: list.splits)

lemma wire_last_error: "wire_last w = Inl err \<Longrightarrow> err = IndexError"
  by (simp add: wire_last_def split: list.splits)

lemma compression_error:
  assumes "coilspring_compression fuel NUMPREC curve_resolution length' d thickness = Some (Inl err)"
  shows "err = ZeroDivisionError
       \<and> or_default d (length' * 0.2) / 2
           - or_default thickness (or_default d (length' * 0.2) * 0.1) = 0"
  using assms
  by (simp add: coilspring_compression_def Let_def split: option.splits if_splits)

lemma tension_error:
  assumes "coilspring_tension fuel NUMPREC curve_resolution length' d thickness = Some (Inl err)"
  shows "err = ZeroDivisionError \<or> err = IndexError"
  using assms
  by (auto simp: coilspring_tension_def tension_path_def Let_def
        split: option.splits if_splits sum.splits dest: wire_first_error wire_last_error)

lemma torsion_error:
  assumes "coilspring_torsion fuel NUMPREC curve_resolution arm angle d length' thickness hook = Some (Inl err)"
  shows "err = ZeroDivisionError \<or> err = IndexError"
  using assms
  by (auto simp: coilspring_torsion_def Let_def
        split: option.splits if_splits sum.splits dest: wire_first_error)

text \<open>
  With one subdivision per turn and a tolerance below \<open>1\<close>:
  \<^verbatim>\<open>coilspring_compression(10, 2, 2, solid=False)\<close> has the coil radius \<open>-1\<close> and
  returns a path, and \<^verbatim>\<open>coilspring_compression(10, 2, 1, solid=False)\<close> has the coil
  radius \<open>0\<close> and divides by it.
\<close>

lemma compression_negative_radius:
  assumes "0 \<le> NUMPREC" and "NUMPREC < 1"
  shows "coilspring_compression 4 NUMPREC (\<lambda>l a. 0) 10 (Some 2) (Some 2)
     = Some (Inr [(Some ''coil'', [(- 1, 0, - 5), (- 1, 0, - 3), (- 1, 0, - 1)]),
                  (Some ''spring'', []),
                  (Some ''coil'', [(- 1, 0, 1), (- 1, 0, 3), (- 1, 0, 5)])])"
proof -
  have small: "NUMPREC < 2 * pi" "NUMPREC < 4 * pi"
    using assms(2) pi_ge_two by simp_all
  have top: "linrange 4 NUMPREC 0 (Some (4 * pi)) (Some (2 * pi)) 0 True = Some [0, 2 * pi, 4 * pi]"
    using linrange_turns [of "2 * pi" NUMPREC 2 4 0] assms(1) small by (simp add: upt_rec)
  have coil: "linrange 4 NUMPREC (4 * pi) (Some 0) (Some (2 * pi)) 0 True = Some []"
    using linrange_descending_empty [of "2 * pi" 0 NUMPREC "4 * pi" 4] assms(1) small by simp
  have bot: "linrange 4 NUMPREC (4 * pi) (Some (8 * pi)) (Some (2 * pi)) 0 True
               = Some [4 * pi, 6 * pi, 8 * pi]"
    using linrange_turns [of "2 * pi" NUMPREC 2 4 "4 * pi"] assms(1) small by (simp add: upt_rec)
  show ?thesis
    by (simp add: coilspring_compression_def or_default_def Let_def loop_var_def Wire_def
          top coil bot cos_even_pi sin_even_pi)
qed

lemma compression_zero_radius:
  assumes "0 \<le> NUMPREC" and "NUMPREC < 1"
  shows "coilspring_compression 4 NUMPREC (\<lambda>l a. 0) 10 (Some 2) (Some 1) = Some (Inl ZeroDivisionError)"
proof -
  have small: "NUMPREC < 2 * pi" using assms(2) pi_ge_two by simp
  have top: "linrange 4 NUMPREC 0 (Some (4 * pi)) (Some (2 * pi)) 0 True = Some [0, 2 * pi, 4 * pi]"
    using linrange_turns [of "2 * pi" NUMPREC 2 4 0] assms(1) small by (simp add: upt_rec)
  show ?thesis
    by (simp add: coilspring_compression_def or_default_def Let_def top)
qed

text \<open>
  Claim C2, as stated, at \<open>thickness = 2\<close> and \<open>diameter / 2 = 1\<close>: the call raises
  nothing and returns a path of six points on the radius \<open>-1\<close>.
\<close>

theorem compression_negative_radius_returns_path:
  "coilspring_compression 4 (1 / 10 ^ 13) (\<lambda>l a. 0) 10 (Some 2) (Some 2)
     = Some (Inr [(Some ''coil'', [(- 1, 0, - 5), (- 1, 0, - 3), (- 1, 0, - 1)]),
                  (Some ''spring'', []),
                  (Some ''coil'', [(- 1, 0, 1), (- 1, 0, 3), (- 1, 0, 5)])])"
  by (rule compression_negative_radius) simp_all

text \<open>
  Claim C2, amended. For every input, \<open>thickness \<ge> diameter / 2\<close> included, none of
  the three generators raises the \<^verbatim>\<open>ValueError\<close> by which this module rejects a
  parameter: the coil radius \<open>diameter / 2 - thickness\<close> is used as it is computed.
  The only exception \<^verbatim>\<open>coilspring_compression\<close> raises is the
  \<^verbatim>\<open>ZeroDivisionError\<close> of the division by the coil radius, and for a given
  non-zero diameter and thickness it is raised only when \<open>thickness = diameter / 2\<close>.
\<close>

theorem springs_no_validation:
  "coilspring_compression fuel NUMPREC curve_resolution length' d thickness \<noteq> Some (Inl (ValueError s))
   \<and> coilspring_tension fuel NUMPREC curve_resolution length' d thickness \<noteq> Some (Inl (ValueError s))
   \<and> coilspring_torsion fuel NUMPREC curve_resolution arm angle d l thickness hook \<noteq> Some (Inl (ValueError s))
   \<and> (coilspring_compression fuel NUMPREC curve_resolution length' (Some d') (Some thickness') = Some (Inl err)
        \<longrightarrow> err = ZeroDivisionError \<and> (d' \<noteq> 0 \<and> thickness' \<noteq> 0 \<longrightarrow> thickness' = d' / 2))"
proof (intro conjI impI)
  show "coilspring_compression fuel NUMPREC curve_resolution length' d thickness \<noteq> Some (Inl (ValueError s))"
    using compression_error by fastforce
  show "coilspring_tension fuel NUMPREC curve_resolution length' d thickness \<noteq> Some (Inl (ValueError s))"
    using tension_error by fastforce
  show "coilspring_torsion fuel NUMPREC curve_resolution arm angle d l thickness hook \<noteq> Some (Inl (ValueError s))"
    using torsion_error by fastforce
next
  assume a: "coilspring_compression fuel NUMPREC curve_resolution length' (Some d') (Some thickness') = Some (Inl err)"
  from compression_error [OF a] show "err = ZeroDivisionError" by simp
  assume "d' \<noteq> 0 \<and> thickness' \<noteq> 0"
  with compression_error [OF a] show "thickness' = d' / 2" by (simp add: or_default_def)
qed

theorem springs_no_validation_witness:
  "coilspring_compression 4 (1 / 10 ^ 13) (\<lambda>l a. 0) 10 (Some 2) (Some 1) = Some (Inl ZeroDivisionError)
   \<and> (2::real) \<noteq> 0 \<and> (1::real) \<noteq> 0 \<and> (1::real) = 2 / 2"
proof -
  have a: "coilspring_compression 4 (1 / 10 ^ 13) (\<lambda>l a. 0) 10 (Some 2) (Some 1)
             = Some (Inl ZeroDivisionError)"
    by (rule compression_zero_radius) simp_all
  have b: "(2::real) \<noteq> 0 \<and> (1::real) \<noteq> 0" by simp
  from springs_no_validation [where fuel = 4 and NUMPREC = "1 / 10 ^ 13" and curve_resolution = "\<lambda>l a. 0"
      and length' = 10 and d' = 2 and thickness' = 1 and err = ZeroDivisionError] a b
  have "(1::real) = 2 / 2" by blast
  with a b show ?thesis by blast
qed

section \<open>The torsion spring\<close>

text \<open>
  The rotation around the axis and the mirror image keep the distance from the axis.
\<close>

lemma rotate_z_axis_dist: "axis_dist (rotate_z a p) = axis_dist p"
proof (cases p)
  case (fields x y z)
  have ring: "(x * c - y * s)\<^sup>2 + (x * s + y * c)\<^sup>2 = (x\<^sup>2 + y\<^sup>2) * (s\<^sup>2 + c\<^sup>2)"
    for s c :: real
    by (simp add: power2_eq_square algebra_simps)
  have "(x * cos a - y * sin a)\<^sup>2 + (x * sin a + y * cos a)\<^sup>2 = x\<^sup>2 + y\<^sup>2"
    unfolding ring [of "cos a" "sin a"] by simp
  then show ?thesis using fields by simp
qed

lemma scale_xz_axis_dist: "axis_dist (scale_xz p) = axis_dist p"
  by (cases p) simp

text \<open>Merging coincident points keeps the first and the last point.\<close>

lemma path_ends_dist_mergeclose:
  assumes "ps \<noteq> []"
  shows "path_ends_dist (Some (Inr (mergeclose ps))) = Some (axis_dist (hd ps), axis_dist (last ps))"
proof -
  from assms have ne: "remdups_adj ps \<noteq> []" by simp
  then obtain q qs where q: "remdups_adj ps = q # qs" by (cases "remdups_adj ps") auto
  have "q = hd ps" using q assms by (metis hd_remdups_adj list.sel(1))
  moreover have "last (q # qs) = last ps" using q by (metis last_remdups_adj)
  ultimately show ?thesis by (simp add: path_ends_dist_def mergeclose_def q)
qed

text \<open>
  \<^verbatim>\<open>coilspring_torsion(5)\<close> has \<open>length = 2.5\<close>, \<open>d = 5\<close>, \<open>thickness = 0.5\<close>,
  \<open>hook = -2.5\<close>, the coil radius \<open>r = 2\<close> and \<open>5 + 3/8\<close> turns. The coil starts at
  \<open>(0, r, z0)\<close>, the first arm is moved there, so its tip is \<open>(5, 2, z0 - 2.5)\<close>; the
  tip of the second arm is the image of that point.
\<close>

lemma torsion_arm_five_run:
  assumes "linrange fuel NUMPREC 0 (Some (43 * pi / 4))
            (Some (2 * pi / (real (curve_resolution (5 * pi) (2 * pi)) + 1))) 0 True = Some (0 # ts)"
  shows "path_ends_dist (coilspring_torsion fuel NUMPREC curve_resolution 5 (pi / 4) None None None None)
           = Some (sqrt 29, sqrt 29)"
  by (simp add: coilspring_torsion_def or_default_def Let_def assms Wire_def wire_first_def
        wire_points_def torsion_arm_def translate_def flip_def path_ends_dist_mergeclose
        rotate_z_axis_dist scale_xz_axis_dist last_map last_rev
        del: rotate_z.simps scale_xz.simps)

text \<open>
  Claim C3, as stated, for one subdivision per turn and the tolerance \<open>1e-13\<close>:
  both ends of the path are at the distance \<open>sqrt 29\<close> from the axis, which is more
  than \<open>5.38\<close>, not \<open>5\<close>.
\<close>

theorem torsion_arm_five_counterexample:
  "path_ends_dist (coilspring_torsion 7 (1 / 10 ^ 13) (\<lambda>l a. 0) 5 (pi / 4) None None None None)
     = Some (sqrt 29, sqrt 29)
   \<and> 5 + 38 / 100 < sqrt 29"
proof -
  let ?st = "linrange_init (1 / 10 ^ 13) 0 (Some (43 * pi / 4)) (Some (2 * pi)) 0 True"
  have "\<not> 2 * pi * (43 * pi / 4 - 0) < 0" by (simp add: not_less)
  then have st: "lr_t ?st = 0" "lr_step ?st = 2 * pi" "lr_stop ?st = 43 * pi / 4 + 1 / 10 ^ 13"
    by (simp_all add: linrange_init_sel linrange_step_def)
  have "linrange_run 7 ?st = Some (map (\<lambda>k. lr_t ?st + real k * lr_step ?st) [0..<6])"
  proof (rule linrange_run_SomeI)
    fix j :: nat assume "j < 6"
    then have "real j \<le> 5" by simp
    then have "real j * (2 * pi) \<le> 5 * (2 * pi)" by (intro mult_right_mono) simp_all
    moreover have "5 * (2 * pi) \<le> 43 * pi / 4" using pi_gt_zero by linarith
    moreover have "(0::real) \<le> 1 / 10 ^ 13" by simp
    ultimately show "lr_t ?st + real j * lr_step ?st \<le> lr_stop ?st" unfolding st by linarith
  next
    have "(1::real) / 10 ^ 13 < 1" by simp
    then have "43 * pi / 4 + 1 / 10 ^ 13 < 6 * (2 * pi)" using pi_ge_two by linarith
    then show "lr_stop ?st < lr_t ?st + real 6 * lr_step ?st" unfolding st by simp
  qed simp
  then have run: "linrange 7 (1 / 10 ^ 13) 0 (Some (43 * pi / 4)) (Some (2 * pi)) 0 True
      = Some (0 # [2 * pi, 4 * pi, 6 * pi, 8 * pi, 10 * pi])"
    unfolding linrange_def st by (simp add: upt_rec)
  have "path_ends_dist (coilspring_torsion 7 (1 / 10 ^ 13) (\<lambda>l a. 0) 5 (pi / 4) None None None None)
     = Some (sqrt 29, sqrt 29)"
    by (rule torsion_arm_five_run) (use run in simp)
  moreover have "5 + 38 / 100 < sqrt 29"
    by (rule real_less_rsqrt) (simp add: power2_eq_square)
  ultimately show ?thesis by blast
qed

text \<open>
  Claim C3, amended. For every curve resolution and every tolerance \<open>NUMPREC \<ge> 0\<close>,
  \<^verbatim>\<open>coilspring_torsion(5)\<close> returns a path whose first and last point lie at the
  distance \<open>sqrt (arm\<^sup>2 + r\<^sup>2) = sqrt 29\<close> from the axis of the coil: each arm is a
  straight line of length \<open>arm = 5\<close> that leaves the coil of radius \<open>r = 2\<close> along a
  tangent.
\<close>

theorem torsion_arm_five_ends:
  assumes "0 \<le> NUMPREC"
  shows "\<exists>fuel. path_ends_dist (coilspring_torsion fuel NUMPREC curve_resolution 5 (pi / 4) None None None None)
           = Some (sqrt 29, sqrt 29)"
proof -
  have "\<exists>fuel ts. linrange fuel NUMPREC 0 (Some (43 * pi / 4))
            (Some (2 * pi / (real (curve_resolution (5 * pi) (2 * pi)) + 1))) 0 True = Some (0 # ts)"
    by (rule linrange_ascending_nonempty) (use assms in simp_all)
  then show ?thesis using torsion_arm_five_run by blast
qed

theorem torsion_arm_five_ends_witness:
  "(0::real) \<le> 1 / 10 ^ 13
   \<and> (\<exists>fuel. path_ends_dist (coilspring_torsion fuel (1 / 10 ^ 13) (\<lambda>l a. 0) 5 (pi / 4) None None None None)
           = Some (sqrt 29, sqrt 29))"
proof -
  have h: "(0::real) \<le> 1 / 10 ^ 13" by simp
  from h torsion_arm_five_ends [OF h, of "\<lambda>l a. 0"] show ?thesis by blast
qed

text \<open>
  Claim C10. For a positive thickness: when \<open>0 < \<bar>hook\<bar> < thickness\<close> the arm is
  built with the hook length \<open>thickness * sign hook\<close>, and when
  \<open>\<bar>hook\<bar> \<ge> thickness\<close> it is built with \<open>hook\<close> as given. This arm, moved to the
  start of the coil, is the head of the path that \<^verbatim>\<open>coilspring_torsion\<close> returns.
\<close>

theorem torsion_hook_clamp:
  assumes "0 < thickness"
  shows "(0 < \<bar>hook\<bar> \<and> \<bar>hook\<bar> < thickness \<longrightarrow>
            torsion_arm arm thickness hook
              = [(arm, 0, thickness * sgn hook), (arm, 0, thickness * sgn hook),
                 (arm - thickness, 0, 0), (0, 0, 0)])
       \<and> (thickness \<le> \<bar>hook\<bar> \<longrightarrow>
            torsion_arm arm thickness hook
              = [(arm, 0, hook), (arm, 0, thickness * sgn hook), (arm - thickness, 0, 0), (0, 0, 0)])
       \<and> (d \<noteq> 0 \<and> length' \<noteq> 0 \<and> hook \<noteq> 0 \<longrightarrow>
            (\<forall>p. coilspring_torsion fuel NUMPREC curve_resolution arm angle
                   (Some d) (Some length') (Some thickness) (Some hook) = Some (Inr p) \<longrightarrow>
              (\<exists>c0 rest. p = mergeclose (translate c0 (torsion_arm arm thickness hook) @ rest))))"
proof (intro conjI impI allI)
  assume h: "0 < \<bar>hook\<bar> \<and> \<bar>hook\<bar> < thickness"
  then have "hook \<noteq> 0" by auto
  then have "\<bar>thickness * sgn hook\<bar> = thickness"
    using assms by (simp add: abs_mult sgn_real_def)
  with h show "torsion_arm arm thickness hook
              = [(arm, 0, thickness * sgn hook), (arm, 0, thickness * sgn hook),
                 (arm - thickness, 0, 0), (0, 0, 0)]"
    by (simp add: torsion_arm_def Let_def)
next
  assume h: "thickness \<le> \<bar>hook\<bar>"
  with assms have "hook \<noteq> 0" by auto
  then have "\<bar>thickness * sgn hook\<bar> = thickness"
    using assms by (simp add: abs_mult sgn_real_def)
  with h show "torsion_arm arm thickness hook
              = [(arm, 0, hook), (arm, 0, thickness * sgn hook), (arm - thickness, 0, 0), (0, 0, 0)]"
    by (simp add: torsion_arm_def Let_def)
next
  fix p
  assume nz: "d \<noteq> 0 \<and> length' \<noteq> 0 \<and> hook \<noteq> 0"
    and res: "coilspring_torsion fuel NUMPREC curve_resolution arm angle
                (Some d) (Some length') (Some thickness) (Some hook) = Some (Inr p)"
  from res nz assms show "\<exists>c0 rest. p = mergeclose (translate c0 (torsion_arm arm thickness hook) @ rest)"
    by (auto simp: coilspring_torsion_def or_default_def Let_def split: option.splits sum.splits if_splits)
qed

theorem torsion_hook_clamp_witness:
  "(0::real) < 1 / 2
   \<and> 0 < \<bar>- 1 / 5 :: real\<bar> \<and> \<bar>- 1 / 5 :: real\<bar> < 1 / 2
   \<and> torsion_arm 5 (1 / 2) (- 1 / 5) = [(5, 0, - 1 / 2), (5, 0, - 1 / 2), (9 / 2, 0, 0), (0, 0, 0)]
   \<and> (1 / 2 :: real) \<le> \<bar>- 5 / 2\<bar>
   \<and> torsion_arm 5 (1 / 2) (- 5 / 2) = [(5, 0, - 5 / 2), (5, 0, - 1 / 2), (9 / 2, 0, 0), (0, 0, 0)]
   \<and> (\<exists>fuel p c0 rest.
         coilspring_torsion fuel (1 / 10 ^ 13) (\<lambda>l a. 0) 5 (pi / 4)
           (Some 5) (Some (5 / 2)) (Some (1 / 2)) (Some (- 1 / 5)) = Some (Inr p)
         \<and> p = mergeclose (translate c0 (torsion_arm 5 (1 / 2) (- 1 / 5)) @ rest))"
proof -
  have t: "(0::real) < 1 / 2" by simp
  have a: "0 < \<bar>- 1 / 5 :: real\<bar> \<and> \<bar>- 1 / 5 :: real\<bar> < 1 / 2" by simp
  have b: "(1 / 2 :: real) \<le> \<bar>- 5 / 2\<bar>" by simp
  have "torsion_arm 5 (1 / 2) (- 1 / 5)
          = [(5, 0, 1 / 2 * sgn (- 1 / 5)), (5, 0, 1 / 2 * sgn (- 1 / 5)), (5 - 1 / 2, 0, 0), (0, 0, 0)]"
    using torsion_hook_clamp [OF t, of "- 1 / 5" 5] a by blast
  then have c: "torsion_arm 5 (1 / 2) (- 1 / 5)
          = [(5, 0, - 1 / 2), (5, 0, - 1 / 2), (9 / 2, 0, 0), (0, 0, 0)]"
    by simp
  have "torsion_arm 5 (1 / 2) (- 5 / 2)
          = [(5, 0, - 5 / 2), (5, 0, 1 / 2 * sgn (- 5 / 2)), (5 - 1 / 2, 0, 0), (0, 0, 0)]"
    using torsion_hook_clamp [OF t, of "- 5 / 2" 5] b by blast
  then have d: "torsion_arm 5 (1 / 2) (- 5 / 2)
          = [(5, 0, - 5 / 2), (5, 0, - 1 / 2), (9 / 2, 0, 0), (0, 0, 0)]"
    by simp
  have "\<exists>fuel ts. linrange fuel (1 / 10 ^ 13) 0 (Some (43 * pi / 4)) (Some (2 * pi)) 0 True = Some (0 # ts)"
    by (rule linrange_ascending_nonempty) simp_all
  then obtain fuel ts where
    run: "linrange fuel (1 / 10000000000000) 0 (Some (43 * pi / 4)) (Some (2 * pi)) 0 True = Some (0 # ts)"
    by auto
  have "\<exists>p. coilspring_torsion fuel (1 / 10 ^ 13) (\<lambda>l a. 0) 5 (pi / 4)
           (Some 5) (Some (5 / 2)) (Some (1 / 2)) (Some (- 1 / 5)) = Some (Inr p)"
    by (simp add: coilspring_torsion_def or_default_def Let_def run Wire_def wire_first_def
          wire_points_def)
  then obtain p where p: "coilspring_torsion fuel (1 / 10 ^ 13) (\<lambda>l a. 0) 5 (pi / 4)
           (Some 5) (Some (5 / 2)) (Some (1 / 2)) (Some (- 1 / 5)) = Some (Inr p)"
    by blast
  have nz: "(5::real) \<noteq> 0 \<and> (5 / 2 :: real) \<noteq> 0 \<and> (- 1 / 5 :: real) \<noteq> 0" by simp
  from torsion_hook_clamp [OF t, of "- 1 / 5" 5 5 "5 / 2" fuel "1 / 10 ^ 13" "\<lambda>l a. 0" "pi / 4"] nz p
  have "\<exists>c0 rest. p = mergeclose (translate c0 (torsion_arm 5 (1 / 2) (- 1 / 5)) @ rest)"
    by blast
  with p t a b c d show ?thesis by blast
qed

section \<open>The tension spring\<close>

text \<open>
  Claim C9. For a given diameter and thickness (not zero, which stands for the
  default), \<^verbatim>\<open>coilspring_tension\<close> is built from the coil radius
  \<open>r = d / 2 - thickness\<close>, the number of turns
  \<open>n = floor ((length - 2 * r) / thickness) - 0.5\<close> and the hook offset
  \<open>hold = length / 2 - r\<close>: the coil runs over the angles of
  \<^verbatim>\<open>linrange(0, 2*pi*n, step)\<close> from the height \<open>- n * thickness / 2\<close>, and the two
  outer arcs join \<open>(0, -r, \<plusminus>length/2)\<close> and \<open>(0, 0, \<plusminus>hold)\<close>.
\<close>

theorem tension_derived_quantities:
  assumes "d \<noteq> 0" and "thickness \<noteq> 0"
  shows "coilspring_tension fuel NUMPREC curve_resolution length' (Some d) (Some thickness) =
     (let r = d / 2 - thickness;
          n = real_of_int \<lfloor>(length' - 2 * r) / thickness\<rfloor> - 0.5;
          hold = length' / 2 - r
      in case linrange fuel NUMPREC 0 (Some (2 * pi * n))
                (Some (2 * pi / (real (curve_resolution (d * pi) (2 * pi)) + 1))) 0 True of
           None \<Rightarrow> None
         | Some ts \<Rightarrow>
             Some (tension_path length' r hold
                     (Wire (map (\<lambda>t. (r * cos t, r * sin t,
                                      - 0.5 * n * thickness + t / (2 * pi) * thickness)) ts)
                        (Some ''spring''))))
   \<and> (\<forall>ps. coilspring_tension fuel NUMPREC curve_resolution length' (Some d) (Some thickness)
              = Some (Inr ps) \<longrightarrow>
         ps ! 0 = ArcCentered ((0, 0, - (length' / 2)), X) (0, - (d / 2 - thickness), - (length' / 2))
                    (0, 0, - (length' / 2 - (d / 2 - thickness)))
       \<and> ps ! 4 = ArcCentered ((0, 0, length' / 2), X) (0, 0, length' / 2 - (d / 2 - thickness))
                    (0, - (d / 2 - thickness), length' / 2))"
proof (intro conjI allI impI)
  show "coilspring_tension fuel NUMPREC curve_resolution length' (Some d) (Some thickness) =
     (let r = d / 2 - thickness;
          n = real_of_int \<lfloor>(length' - 2 * r) / thickness\<rfloor> - 0.5;
          hold = length' / 2 - r
      in case linrange fuel NUMPREC 0 (Some (2 * pi * n))
                (Some (2 * pi / (real (curve_resolution (d * pi) (2 * pi)) + 1))) 0 True of
           None \<Rightarrow> None
         | Some ts \<Rightarrow>
             Some (tension_path length' r hold
                     (Wire (map (\<lambda>t. (r * cos t, r * sin t,
                                      - 0.5 * n * thickness + t / (2 * pi) * thickness)) ts)
                        (Some ''spring''))))"
    using assms by (simp add: coilspring_tension_def or_default_def Let_def split: option.splits)
next
  fix ps
  assume res: "coilspring_tension fuel NUMPREC curve_resolution length' (Some d) (Some thickness)
                 = Some (Inr ps)"
  then obtain coil where "tension_path length' (d / 2 - thickness) (0.5 * length' - (d / 2 - thickness)) coil
      = Inr ps"
    using assms
    by (auto simp: coilspring_tension_def or_default_def Let_def split: option.splits if_splits)
  then have ps: "ps ! 0 = ArcCentered ((0, 0, - (length' / 2)), X) (0, - (d / 2 - thickness), - (length' / 2))
                    (0, 0, - (length' / 2 - (d / 2 - thickness)))
       \<and> ps ! 4 = ArcCentered ((0, 0, length' / 2), X) (0, 0, length' / 2 - (d / 2 - thickness))
                    (0, - (d / 2 - thickness), length' / 2)"
    by (auto simp: tension_path_def Z_def split: sum.splits)
  from ps show "ps ! 0 = ArcCentered ((0, 0, - (length' / 2)), X) (0, - (d / 2 - thickness), - (length' / 2))
                    (0, 0, - (length' / 2 - (d / 2 - thickness)))" ..
  from ps show "ps ! 4 = ArcCentered ((0, 0, length' / 2), X) (0, 0, length' / 2 - (d / 2 - thickness))
                    (0, - (d / 2 - thickness), length' / 2)" ..
qed

theorem tension_derived_quantities_witness:
  "(4::real) \<noteq> 0 \<and> (2 / 5 :: real) \<noteq> 0
   \<and> (\<exists>fuel ps. coilspring_tension fuel (1 / 10 ^ 13) (\<lambda>l a. 0) 20 (Some 4) (Some (2 / 5)) = Some (Inr ps)
         \<and> ps ! 0 = ArcCentered ((0, 0, - 10), X) (0, - (8 / 5), - 10) (0, 0, - (42 / 5))
         \<and> ps ! 4 = ArcCentered ((0, 0, 10), X) (0, 0, 42 / 5) (0, - (8 / 5), 10))"
proof -
  have h1: "(4::real) \<noteq> 0" and h2: "(2 / 5 :: real) \<noteq> 0" by simp_all
  have "\<exists>fuel ts. linrange fuel (1 / 10 ^ 13) 0 (Some (83 * pi)) (Some (2 * pi)) 0 True = Some (0 # ts)"
    by (rule linrange_ascending_nonempty) simp_all
  then obtain fuel ts where
    run: "linrange fuel (1 / 10000000000000) 0 (Some (83 * pi)) (Some (2 * pi)) 0 True = Some (0 # ts)"
    by auto
  have "\<exists>ps. coilspring_tension fuel (1 / 10 ^ 13) (\<lambda>l a. 0) 20 (Some 4) (Some (2 / 5)) = Some (Inr ps)"
    by (simp add: coilspring_tension_def or_default_def Let_def run Wire_def tension_path_def
          wire_first_def wire_last_def wire_points_def)
  then obtain ps where
    ps: "coilspring_tension fuel (1 / 10 ^ 13) (\<lambda>l a. 0) 20 (Some 4) (Some (2 / 5)) = Some (Inr ps)"
    by blast
  from tension_derived_quantities [OF h1 h2, of fuel "1 / 10 ^ 13" "\<lambda>l a. 0" 20] ps
  have "ps ! 0 = ArcCentered ((0, 0, - (20 / 2)), X) (0, - (4 / 2 - 2 / 5), - (20 / 2))
                    (0, 0, - (20 / 2 - (4 / 2 - 2 / 5)))
       \<and> ps ! 4 = ArcCentered ((0, 0, 20 / 2), X) (0, 0, 20 / 2 - (4 / 2 - 2 / 5))
                    (0, - (4 / 2 - 2 / 5), 20 / 2)"
    by blast
  then have "ps ! 0 = ArcCentered ((0, 0, - 10), X) (0, - (8 / 5), - 10) (0, 0, - (42 / 5))
         \<and> ps ! 4 = ArcCentered ((0, 0, 10), X) (0, 0, 42 / 5) (0, - (8 / 5), 10)"
    by simp
  with ps h1 h2 show ?thesis by blast
qed


section \<open>Nuts and washers\<close>




lemma bisect_past_table:
  assumes "\<forall>k \<in> set keys. k < x"
  shows "bisect keys x = length keys"
  using assms by (simp add: bisect_def takeWhile_eq_all_conv [THEN iffD2])






text \<open>
  Above the largest key the index is the length of the table, and the access to the
  table raises \<^verbatim>\<open>IndexError\<close> before the test of the diameter.
\<close>

lemma nut_above_table: "nut bisect 100 = Inl IndexError"
proof -
  have "bisect (map fst standard_hexnuts) 100 = length (map fst standard_hexnuts)"
    by (rule bisect_past_table) (simp add: standard_hexnuts_def)
  then show ?thesis by (simp add: nut_def getitem_def)
qed




end
